theory Spec2Isabelle
  imports Complex_Main "HOL-Library.AList" "HOL-Library.Multiset"
begin

section \<open>LODvisual: sampling, host counting, dominant host and merge\<close>

text \<open>
  The development embeds the functions \<^verbatim>\<open>streamTriples\<close>, \<^verbatim>\<open>analyseData\<close>,
  \<^verbatim>\<open>process\<close> and the merging \<^verbatim>\<open>reduce\<close> of the script (the longer of
  the two variants; the shorter one has the same \<^verbatim>\<open>streamTriples\<close> and
  \<^verbatim>\<open>analyseData\<close> and another sampling factor).

  Conventions of the embedding:
  \<^item> an object created by \<^verbatim>\<open>{}\<close> and used as a dictionary is an association list of its
    own properties in iteration order, together with the properties that every such object
    inherits from \<^verbatim>\<open>Object.prototype\<close>: reading and assigning a property follow both
    (\<open>getProp\<close>, \<open>setProp\<close>). A new key is put last; the keys that look like array indices,
    which JavaScript iterates first, are not told apart, and no property below depends on
    the place of a new key;
  \<^item> the values held by these objects are JavaScript primitives (\<open>jsval\<close>): numbers,
    strings, \<^verbatim>\<open>NaN\<close> and \<^verbatim>\<open>undefined\<close>. Numbers are exact: counts are \<open>nat\<close>,
    sizes are \<open>int\<close>, the fractional quantities of the page computation are \<open>real\<close>.
    Rounding of IEEE doubles is not modelled;
  \<^item> the libraries \<^verbatim>\<open>request\<close>, \<^verbatim>\<open>N3\<close> and \<^verbatim>\<open>url-parse\<close> are not
    part of the repository: what they return is a parameter of the model. So is the
    conversion of a string to a number that the comparison \<^verbatim>\<open>>\<close> applies.
\<close>

subsection \<open>Data\<close>

record triple =
  subject :: string
  predicate :: string
  object :: string
  graph :: string

datatype error =
  RequestError string
  | StatusError int string
  | ParserError string

datatype thrown = ReferenceError string | TypeError string

subsection \<open>JavaScript values and objects\<close>

datatype jsval = Undefined | Num nat | NaN | Str string

text \<open>The decimal text of a number, as \<^verbatim>\<open>+\<close> produces it when the other operand is a string.\<close>

definition digitChar :: "nat \<Rightarrow> char" where
  "digitChar d = ''0123456789'' ! d"

fun decimal :: "nat \<Rightarrow> string" where
  "decimal n = (if n < 10 then [digitChar n] else decimal (n div 10) @ [digitChar (n mod 10)])"

fun toText :: "jsval \<Rightarrow> string" where
  "toText Undefined = ''undefined''"
| "toText (Num n) = decimal n"
| "toText NaN = ''NaN''"
| "toText (Str s) = s"

text \<open>
  \<^verbatim>\<open>v || 0\<close>: the falsy values are \<^verbatim>\<open>undefined\<close>, \<^verbatim>\<open>0\<close>, \<^verbatim>\<open>NaN\<close> and the
  empty string. \<^verbatim>\<open>a + b\<close>: concatenation as soon as one operand is a string, addition of
  two numbers, \<^verbatim>\<open>NaN\<close> otherwise.
\<close>

definition falsy :: "jsval \<Rightarrow> bool" where
  "falsy v \<longleftrightarrow> v = Undefined \<or> v = Num 0 \<or> v = NaN \<or> v = Str []"

definition orZero :: "jsval \<Rightarrow> jsval" where
  "orZero v = (if falsy v then Num 0 else v)"

fun jsPlus :: "jsval \<Rightarrow> jsval \<Rightarrow> jsval" where
  "jsPlus (Str s) v = Str (s @ toText v)"
| "jsPlus v (Str t) = Str (toText v @ t)"
| "jsPlus (Num m) (Num n) = Num (m + n)"
| "jsPlus _ _ = NaN"

text \<open>
  The properties that an object created by \<^verbatim>\<open>{}\<close> inherits from
  \<^verbatim>\<open>Object.prototype\<close>, each with the text that \<^verbatim>\<open>+\<close> makes of its value: the
  accessor \<^verbatim>\<open>__proto__\<close> yields \<^verbatim>\<open>Object.prototype\<close> itself, every other one is a
  built-in function (\<^verbatim>\<open>constructor\<close> is the function \<^verbatim>\<open>Object\<close>). All these values
  are objects, hence truthy, and \<^verbatim>\<open>+\<close> turns them into these texts; the model reads such
  a property as the string of its text.
\<close>

definition objectPrototype :: "string \<Rightarrow> string option" where
  "objectPrototype name =
     (if name = ''__proto__'' then Some ''[object Object]''
      else if name = ''constructor'' then Some ''function Object() { [native code] }''
      else if name \<in> set [''toString'', ''toLocaleString'', ''valueOf'', ''hasOwnProperty'',
                          ''isPrototypeOf'', ''propertyIsEnumerable'', ''__defineGetter__'',
                          ''__defineSetter__'', ''__lookupGetter__'', ''__lookupSetter__'']
      then Some (''function '' @ name @ ''() { [native code] }'')
      else None)"

type_synonym host_counts = "(string \<times> jsval) list"

text \<open>
  \<^verbatim>\<open>obj[key]\<close>: the own property if there is one, else the inherited one, else
  \<^verbatim>\<open>undefined\<close>. \<^verbatim>\<open>obj[key] = v\<close> for a primitive \<open>v\<close>: the setter of
  \<^verbatim>\<open>__proto__\<close> ignores a value that is not an object, so that no own property of that
  name is ever created; any other key becomes or stays an own property.
\<close>

definition getProp :: "host_counts \<Rightarrow> string \<Rightarrow> jsval" where
  "getProp obj key =
     (case map_of obj key of
        Some v \<Rightarrow> v
      | None \<Rightarrow> (case objectPrototype key of Some text \<Rightarrow> Str text | None \<Rightarrow> Undefined))"

definition setProp :: "string \<Rightarrow> jsval \<Rightarrow> host_counts \<Rightarrow> host_counts" where
  "setProp key v obj = (if key = ''__proto__'' then obj else AList.update key v obj)"

text \<open>
  The number an entry stands for as a count: the number itself, and nothing for any other
  value. A plain host-count object holds numbers only, under distinct keys none of which is
  the name of an inherited property.
\<close>

fun weight :: "jsval \<Rightarrow> nat" where
  "weight (Num n) = n"
| "weight _ = 0"

definition hostCount :: "host_counts \<Rightarrow> string \<Rightarrow> nat" where
  "hostCount m key = (case map_of m key of None \<Rightarrow> 0 | Some v \<Rightarrow> weight v)"

fun isNum :: "jsval \<Rightarrow> bool" where
  "isNum (Num n) = True"
| "isNum _ = False"

definition plainCounts :: "host_counts \<Rightarrow> bool" where
  "plainCounts m \<longleftrightarrow>
     distinct (map fst m) \<and> list_all (\<lambda>e. objectPrototype (fst e) = None \<and> isNum (snd e)) m"

text \<open>The objects that the counting builds while every counted host is plain: plain, with positive counts.\<close>

definition countsInv :: "host_counts \<Rightarrow> bool" where
  "countsInv m \<longleftrightarrow> plainCounts m \<and> list_all (\<lambda>e. 0 < weight (snd e)) m"

subsection \<open>Page sampling (the arithmetic at the head of the metadata branch of analyseData)\<close>

text \<open>
  \<^verbatim>\<open>var maxPage = Math.ceil(numTriples / 100.);\<close>
  \<^verbatim>\<open>var pagesToSample = Math.ceil(numTriples * SAMPLING_FACTOR / 100);\<close>
  \<^verbatim>\<open>var pageInterval = maxPage / pagesToSample;\<close>
  The loop \<^verbatim>\<open>for (var i = 0; i < pagesToSample; i++)\<close> requests the page
  \<^verbatim>\<open>1 + i*pageInterval\<close>. When \<open>pagesToSample\<close> is not positive the loop body
  never runs, so the value of the quotient by zero is never used.
\<close>

definition maxPage :: "int \<Rightarrow> int" where
  "maxPage numTriples = \<lceil>real_of_int numTriples / 100\<rceil>"

definition pagesToSample :: "real \<Rightarrow> int \<Rightarrow> int" where
  "pagesToSample samplingFactor numTriples = \<lceil>real_of_int numTriples * samplingFactor / 100\<rceil>"

definition pageInterval :: "real \<Rightarrow> int \<Rightarrow> real" where
  "pageInterval samplingFactor numTriples =
     real_of_int (maxPage numTriples) / real_of_int (pagesToSample samplingFactor numTriples)"

definition pageIndices :: "real \<Rightarrow> int \<Rightarrow> real list" where
  "pageIndices samplingFactor numTriples =
     map (\<lambda>i. 1 + real i * pageInterval samplingFactor numTriples)
       [0 ..< nat (pagesToSample samplingFactor numTriples)]"

subsection \<open>streamTriples\<close>

text \<open>
  \<^verbatim>\<open>request(requestOptions, function (err, response, body) {...})\<close> hands its callback
  either an error or a response; \<open>n3parse\<close> stands for the calls that
  \<^verbatim>\<open>N3.Parser({format: 'application/trig'}).parse(body, ...)\<close> makes to the function it is
  given: \<open>Inl err\<close> for \<^verbatim>\<open>(err)\<close>, \<open>Inr (Some triple)\<close> for a triple and \<open>Inr None\<close>
  for the final call whose triple is \<^verbatim>\<open>null\<close>. The same type describes the calls that
  \<^verbatim>\<open>streamTriples\<close> makes to its own callback.
\<close>

record response =
  statusCode :: int
  body :: string

datatype request_result = RequestFailed error | Responded response

type_synonym callback_args = "error + triple option"

datatype stream_result = Calls "callback_args list" | Throws thrown

text \<open>
  The identifiers that the body of the request callback inside \<^verbatim>\<open>streamTriples\<close> can
  read: its own parameters, the parameters and the variable of \<^verbatim>\<open>streamTriples\<close>, and
  the variables and functions of the module. Reading any other identifier raises a
  \<^verbatim>\<open>ReferenceError\<close>.
\<close>

definition streamTriples_scope :: "string list" where
  "streamTriples_scope =
     [''err'', ''response'', ''body'', ''url'', ''callback'', ''requestOptions'',
      ''N3'', ''request'', ''urlparse'', ''SAMPLING_FACTOR'',
      ''getRelevantDatasets'', ''streamTriples'', ''analyseData'', ''process'']"

text \<open>
  On a status other than 200 the code runs
  \<^verbatim>\<open>callback(new Error("Encountered statuscode " + response.statusCode + " for " + ldfURL));\<close>
  whose argument is evaluated before \<^verbatim>\<open>callback\<close> is called. On status 200 every call
  of the parser is passed on: \<^verbatim>\<open>callback(err)\<close> for an error, \<^verbatim>\<open>callback(null, triple)\<close>
  otherwise.
\<close>

definition streamTriples :: "(string \<Rightarrow> callback_args list) \<Rightarrow> string \<Rightarrow> request_result \<Rightarrow> stream_result" where
  "streamTriples n3parse url r =
     (case r of
        RequestFailed err \<Rightarrow> Calls [Inl err]
      | Responded response \<Rightarrow>
          if statusCode response \<noteq> 200 then
            (if ''ldfURL'' \<in> set streamTriples_scope
             then Calls [Inl (StatusError (statusCode response) url)]
             else Throws (ReferenceError ''ldfURL''))
          else Calls (map (\<lambda>call. case call of Inl err \<Rightarrow> Inl err | Inr triple \<Rightarrow> Inr triple)
                        (n3parse (body response))))"

subsection \<open>analyseData\<close>

text \<open>
  The promise of \<^verbatim>\<open>analyseData\<close> is settled by the first \<^verbatim>\<open>resolve\<close> or
  \<^verbatim>\<open>reject\<close>; later ones have no effect. Every metadata triple seen on the root
  resource opens a sampling with its own \<^verbatim>\<open>remainingPages\<close> and \<^verbatim>\<open>urls\<close>; the
  page requests it issues are recorded with the position of that sampling and the page index.
\<close>

datatype promise = Pending | Resolved host_counts | Rejected error

definition resolve :: "host_counts \<Rightarrow> promise \<Rightarrow> promise" where
  "resolve v p = (case p of Pending \<Rightarrow> Resolved v | _ \<Rightarrow> p)"

definition reject :: "error \<Rightarrow> promise \<Rightarrow> promise" where
  "reject err p = (case p of Pending \<Rightarrow> Rejected err | _ \<Rightarrow> p)"

text \<open>
  \<^verbatim>\<open>if (N3.Util.isIRI(elem)) { var host = urlparse(elem).host;
  urls[host] = (urls[host] || 0) + 1; }\<close>, with \<open>isIRI\<close> for \<^verbatim>\<open>N3.Util.isIRI\<close> and
  \<open>hostOf\<close> for \<^verbatim>\<open>urlparse(_).host\<close>. \<^verbatim>\<open>urls\<close> was created by \<^verbatim>\<open>{}\<close>.
\<close>

definition countTerm :: "(string \<Rightarrow> bool) \<Rightarrow> (string \<Rightarrow> string) \<Rightarrow> host_counts \<Rightarrow> string \<Rightarrow> host_counts" where
  "countTerm isIRI hostOf urls elem =
     (if isIRI elem then
        (let host = hostOf elem in setProp host (jsPlus (orZero (getProp urls host)) (Num 1)) urls)
      else urls)"

definition onPageTriple :: "(string \<Rightarrow> bool) \<Rightarrow> (string \<Rightarrow> string) \<Rightarrow> host_counts \<Rightarrow> triple \<Rightarrow> host_counts" where
  "onPageTriple isIRI hostOf urls triple =
     (if graph triple \<noteq> '''' then urls
      else foldl (countTerm isIRI hostOf) urls [subject triple, predicate triple, object triple])"

record sampling =
  remainingPages :: "int option"
  urls :: host_counts

record analysis =
  promise :: promise
  samplings :: "sampling list"
  requests :: "(nat \<times> real) list"

definition initial :: analysis where
  "initial = \<lparr>promise = Pending, samplings = [], requests = []\<rparr>"

text \<open>The callback given to \<^verbatim>\<open>streamTriples(pageURL, ...)\<close> by the sampling at position \<open>sid\<close>.\<close>

definition pageCallback :: "(string \<Rightarrow> bool) \<Rightarrow> (string \<Rightarrow> string) \<Rightarrow> nat \<Rightarrow> callback_args \<Rightarrow> analysis \<Rightarrow> analysis" where
  "pageCallback isIRI hostOf sid args st =
     (if sid < length (samplings st) then
        (case args of
           Inl err \<Rightarrow> st\<lparr>promise := reject err (promise st)\<rparr>
         | Inr (Some triple) \<Rightarrow>
             st\<lparr>samplings := (samplings st)
                  [sid := (samplings st ! sid)
                     \<lparr>urls := onPageTriple isIRI hostOf (urls (samplings st ! sid)) triple\<rparr>]\<rparr>
         | Inr None \<Rightarrow>
             (let remaining = map_option (\<lambda>r. r - 1) (remainingPages (samplings st ! sid)) in
              st\<lparr>samplings := (samplings st)[sid := (samplings st ! sid)\<lparr>remainingPages := remaining\<rparr>],
                 promise := (if remaining = Some 0
                             then resolve (urls (samplings st ! sid)) (promise st)
                             else promise st)\<rparr>))
      else st)"

definition sizeTriple :: "string \<Rightarrow> triple \<Rightarrow> bool" where
  "sizeTriple ldfURL triple \<longleftrightarrow>
     subject triple = ldfURL \<and> predicate triple = ''http://rdfs.org/ns/void#triples''"

text \<open>
  The callback given to \<^verbatim>\<open>streamTriples(ldfURL, ...)\<close>. \<open>literalInt\<close> stands for
  \<^verbatim>\<open>parseInt(N3.Util.getLiteralValue(_))\<close>, \<open>None\<close> being \<^verbatim>\<open>NaN\<close>: then
  \<^verbatim>\<open>pagesToSample\<close> is \<^verbatim>\<open>NaN\<close> too and the loop condition \<^verbatim>\<open>i < pagesToSample\<close>
  is false at once.
\<close>

definition rootCallback :: "real \<Rightarrow> (string \<Rightarrow> int option) \<Rightarrow> string \<Rightarrow> callback_args \<Rightarrow> analysis \<Rightarrow> analysis" where
  "rootCallback samplingFactor literalInt ldfURL args st =
     (case args of
        Inl err \<Rightarrow> st\<lparr>promise := reject err (promise st)\<rparr>
      | Inr None \<Rightarrow> st
      | Inr (Some triple) \<Rightarrow>
          if sizeTriple ldfURL triple then
            (case literalInt (object triple) of
               None \<Rightarrow> st\<lparr>samplings := samplings st @ [\<lparr>remainingPages = None, urls = []\<rparr>]\<rparr>
             | Some numTriples \<Rightarrow>
                 st\<lparr>samplings := samplings st @
                      [\<lparr>remainingPages = Some (pagesToSample samplingFactor numTriples), urls = []\<rparr>],
                    requests := requests st @
                      map (Pair (length (samplings st))) (pageIndices samplingFactor numTriples)\<rparr>)
          else st)"

text \<open>
  The root resource: all the calls that \<^verbatim>\<open>streamTriples(ldfURL, ...)\<close> makes, in order,
  from the fresh promise. A page: the outcome of one \<^verbatim>\<open>streamTriples(pageURL, ...)\<close>; an
  exception raised inside the request callback is not caught by anything in the script.
\<close>

definition rootStream :: "real \<Rightarrow> (string \<Rightarrow> int option) \<Rightarrow> string \<Rightarrow> callback_args list \<Rightarrow> analysis" where
  "rootStream samplingFactor literalInt ldfURL calls =
     fold (rootCallback samplingFactor literalInt ldfURL) calls initial"

definition pageStream :: "(string \<Rightarrow> bool) \<Rightarrow> (string \<Rightarrow> string) \<Rightarrow> nat \<Rightarrow> stream_result \<Rightarrow> analysis \<Rightarrow> thrown + analysis" where
  "pageStream isIRI hostOf sid result st =
     (case result of
        Throws x \<Rightarrow> Inl x
      | Calls calls \<Rightarrow> Inr (fold (pageCallback isIRI hostOf sid) calls st))"

text \<open>The (triple, position) pairs that the counting property speaks of.\<close>

datatype position = Subject | Predicate | Object

fun termAt :: "position \<Rightarrow> triple \<Rightarrow> string" where
  "termAt Subject t = subject t"
| "termAt Predicate t = predicate t"
| "termAt Object t = object t"

definition countedPairs :: "(string \<Rightarrow> bool) \<Rightarrow> triple list \<Rightarrow> (triple \<times> position) list" where
  "countedPairs isIRI ts =
     [(t, p). t \<leftarrow> ts, p \<leftarrow> [Subject, Predicate, Object], graph t = '''' \<and> isIRI (termAt p t)]"

definition totalCount :: "host_counts \<Rightarrow> nat" where
  "totalCount m = sum_list (map (\<lambda>e. weight (snd e)) m)"

text \<open>The triples among the calls made to a page callback, in order of delivery.\<close>

fun deliveredTriples :: "callback_args list \<Rightarrow> triple list" where
  "deliveredTriples [] = []"
| "deliveredTriples (Inr (Some t) # calls) = t # deliveredTriples calls"
| "deliveredTriples (_ # calls) = deliveredTriples calls"

text \<open>
  Two kinds of calls to the root callback: one that carries neither an error nor a size
  triple, and one that carries no error and, if it is a size triple, a declared size that is
  not positive or does not parse.
\<close>

definition quietCall :: "string \<Rightarrow> callback_args \<Rightarrow> bool" where
  "quietCall ldfURL args =
     (case args of Inl err \<Rightarrow> False | Inr None \<Rightarrow> True
      | Inr (Some triple) \<Rightarrow> \<not> sizeTriple ldfURL triple)"

definition emptySizeCall :: "(string \<Rightarrow> int option) \<Rightarrow> string \<Rightarrow> callback_args \<Rightarrow> bool" where
  "emptySizeCall literalInt ldfURL args =
     (case args of Inl err \<Rightarrow> False | Inr None \<Rightarrow> True
      | Inr (Some triple) \<Rightarrow>
          \<not> sizeTriple ldfURL triple \<or>
          (case literalInt (object triple) of None \<Rightarrow> True | Some numTriples \<Rightarrow> numTriples \<le> 0))"

text \<open>
  The hosts counted by a list of triples: those of the counted pairs. They are plain when
  none of them is the name of an inherited property.
\<close>

definition countedHosts :: "(string \<Rightarrow> bool) \<Rightarrow> (string \<Rightarrow> string) \<Rightarrow> triple list \<Rightarrow> string list" where
  "countedHosts isIRI hostOf ts = map (\<lambda>(t, p). hostOf (termAt p t)) (countedPairs isIRI ts)"

definition plainHosts :: "string list \<Rightarrow> bool" where
  "plainHosts hosts \<longleftrightarrow> list_all (\<lambda>h. objectPrototype h = None) hosts"

subsection \<open>process\<close>

text \<open>
  The host-count object of a dataset is shared: \<^verbatim>\<open>process\<close> deletes from it in place and
  returns the same object as \<^verbatim>\<open>referencedHosts\<close>, and the merge may store it in an entry.
  Objects of this kind therefore live in a store, and records hold their addresses.
\<close>

type_synonym addr = nat

type_synonym store = "addr \<Rightarrow> host_counts"

record prov =
  ldf :: string
  url :: string
  numTriples :: int

record dataset =
  ldfEndpoint :: string
  source :: string
  triples :: int
  hostOccurrences :: addr

record processed =
  mostOccurringHost :: "string option"
  provenance :: prov
  referencedHosts :: addr

text \<open>
  A property name is a string: \<^verbatim>\<open>null\<close> used as a key (in
  \<^verbatim>\<open>delete datasetInfo.hostOccurrences[mostOccurringHost]\<close> and in
  \<^verbatim>\<open>acc[current.mostOccurringHost]\<close>) is the key \<^verbatim>\<open>"null"\<close>.
\<close>

definition propertyKey :: "string option \<Rightarrow> string" where
  "propertyKey k = (case k of None \<Rightarrow> ''null'' | Some name \<Rightarrow> name)"

text \<open>
  \<^verbatim>\<open>a > b\<close>: two strings are compared as strings, unit by unit; otherwise both operands
  are converted to numbers and the comparison is false when one of them is \<^verbatim>\<open>NaN\<close>.
  \<open>toNumber\<close> stands for the conversion of a string, \<open>None\<close> being \<^verbatim>\<open>NaN\<close>.
\<close>

fun strLess :: "string \<Rightarrow> string \<Rightarrow> bool" where
  "strLess [] [] = False"
| "strLess [] (y # ys) = True"
| "strLess (x # xs) [] = False"
| "strLess (x # xs) (y # ys) =
     (if (of_char x :: nat) < of_char y then True
      else if (of_char y :: nat) < of_char x then False
      else strLess xs ys)"

fun numberOf :: "(string \<Rightarrow> real option) \<Rightarrow> jsval \<Rightarrow> real option" where
  "numberOf toNumber (Num n) = Some (real n)"
| "numberOf toNumber (Str s) = toNumber s"
| "numberOf toNumber _ = None"

fun jsGreater :: "(string \<Rightarrow> real option) \<Rightarrow> jsval \<Rightarrow> jsval \<Rightarrow> bool" where
  "jsGreater toNumber (Str x) (Str y) = strLess y x"
| "jsGreater toNumber a b =
     (case (numberOf toNumber a, numberOf toNumber b) of
        (Some p, Some q) \<Rightarrow> q < p
      | _ \<Rightarrow> False)"

text \<open>
  The \<^verbatim>\<open>for (var key in datasetInfo.hostOccurrences)\<close> loop, over the keys in iteration
  order, carrying \<^verbatim>\<open>mostOccurringHost\<close> and \<^verbatim>\<open>occurrences\<close>. The loop visits own
  properties only (the inherited ones are not enumerable), so
  \<^verbatim>\<open>datasetInfo.hostOccurrences[key]\<close> reads an own property.
\<close>

fun dominantLoop :: "(string \<Rightarrow> real option) \<Rightarrow> host_counts \<Rightarrow> string list \<Rightarrow> string option \<times> jsval \<Rightarrow> string option \<times> jsval" where
  "dominantLoop toNumber m [] best = best"
| "dominantLoop toNumber m (key # keys) (host, occurrences) =
     (if jsGreater toNumber (getProp m key) occurrences
      then dominantLoop toNumber m keys (Some key, getProp m key)
      else dominantLoop toNumber m keys (host, occurrences))"

text \<open>
  The loop body first calls \<^verbatim>\<open>datasetInfo.hostOccurrences.hasOwnProperty(key)\<close>. When the
  object has an own property of that name its value is a primitive, and calling it raises a
  \<^verbatim>\<open>TypeError\<close> on the first key.
\<close>

definition process :: "(string \<Rightarrow> real option) \<Rightarrow> store \<Rightarrow> dataset \<Rightarrow> thrown + store \<times> processed" where
  "process toNumber s datasetInfo =
     (let m = s (hostOccurrences datasetInfo) in
      if map_of m ''hasOwnProperty'' \<noteq> None then Inl (TypeError ''hasOwnProperty'')
      else
        (let best = fst (dominantLoop toNumber m (map fst m) (None, Num 0))
         in Inr (s(hostOccurrences datasetInfo := AList.delete (propertyKey best) m),
                 \<lparr>mostOccurringHost = best,
                  provenance = \<lparr>ldf = ldfEndpoint datasetInfo, url = source datasetInfo,
                                numTriples = triples datasetInfo\<rparr>,
                  referencedHosts = hostOccurrences datasetInfo\<rparr>)))"

subsection \<open>The merge (the reduce over the processed datasets)\<close>

record merged =
  merged_triples :: int
  merged_provenance :: "prov list"
  merged_referencedHosts :: addr

text \<open>
  The inner callback \<^verbatim>\<open>sum[key] = (sum[key] || 0) + current.referencedHosts[key]\<close>:
  \<open>acc\<close> is the address of \<^verbatim>\<open>sum\<close>, the object of the entry, read and written in
  the store at every step, and \<open>cur\<close> is the address of the object of the current dataset,
  whose key list was taken before the loop.
\<close>

definition sumKey :: "addr \<Rightarrow> addr \<Rightarrow> string \<Rightarrow> store \<Rightarrow> store" where
  "sumKey cur acc key s =
     s(acc := setProp key (jsPlus (orZero (getProp (s acc) key)) (getProp (s cur) key)) (s acc))"

text \<open>
  The outer callback. Its accumulator is keyed by \<^verbatim>\<open>current.mostOccurringHost\<close>, which
  \<^verbatim>\<open>process\<close> sets to \<^verbatim>\<open>null\<close> or to a key of the host-count object whose value
  compared greater than a number, as the texts of the inherited properties never do; the
  accumulator is modelled by its own properties.
\<close>

definition mergeStep :: "store \<times> (string \<times> merged) list \<Rightarrow> processed \<Rightarrow> store \<times> (string \<times> merged) list" where
  "mergeStep sa current =
     (case sa of (s, acc) \<Rightarrow>
        (let k = propertyKey (mostOccurringHost current) in
         case map_of acc k of
           None \<Rightarrow>
             (s, AList.update k
                   \<lparr>merged_triples = numTriples (provenance current),
                    merged_provenance = [provenance current],
                    merged_referencedHosts = referencedHosts current\<rparr> acc)
         | Some entry \<Rightarrow>
             (fold (sumKey (referencedHosts current) (merged_referencedHosts entry))
                (map fst (s (referencedHosts current))) s,
              AList.update k
                (entry\<lparr>merged_triples := merged_triples entry + numTriples (provenance current),
                       merged_provenance := merged_provenance entry @ [provenance current]\<rparr>) acc)))"

definition reduce :: "store \<Rightarrow> processed list \<Rightarrow> store \<times> (string \<times> merged) list" where
  "reduce s processedInfo = foldl mergeStep (s, []) processedInfo"

text \<open>The datasets that share the output key \<open>k\<close>, in input order.\<close>

definition sameHost :: "string \<Rightarrow> processed list \<Rightarrow> processed list" where
  "sameHost k ps = filter (\<lambda>p. propertyKey (mostOccurringHost p) = k) ps"




text \<open>
  What the merge is expected to hold under the key \<open>k\<close> after the datasets \<open>ps\<close>: nothing
  when no dataset has that key, else the sum of the declared sizes, the provenance records
  in input order and the address of the object of the first dataset with that key.
\<close>

definition groupEntry :: "string \<Rightarrow> processed list \<Rightarrow> merged option" where
  "groupEntry k ps =
     (case sameHost k ps of
        [] \<Rightarrow> None
      | first # rest \<Rightarrow>
          Some \<lparr>merged_triples = sum_list (map (\<lambda>p. numTriples (provenance p)) (first # rest)),
                merged_provenance = map provenance (first # rest),
                merged_referencedHosts = referencedHosts first\<rparr>)"

text \<open>The host counts of several objects added up, as a map: a host is a key when it is one in some object.\<close>

definition mergedCounts :: "host_counts list \<Rightarrow> string \<Rightarrow> jsval option" where
  "mergedCounts ms h =
     (if list_ex (\<lambda>m. map_of m h \<noteq> None) ms
      then Some (Num (sum_list (map (\<lambda>m. hostCount m h) ms)))
      else None)"


subsection \<open>Concrete inputs used in the examples\<close>

definition exampleLiteralInt :: "string \<Rightarrow> int option" where
  "exampleLiteralInt s =
     (if s = ''0'' then Some 0 else if s = ''100'' then Some 100
      else if s = ''-5'' then Some (- 5) else None)"

definition exampleSizeTriple :: "string \<Rightarrow> triple" where
  "exampleSizeTriple n =
     \<lparr>subject = ''http://ldf.lodlaundromat.org/d'', predicate = ''http://rdfs.org/ns/void#triples'',
      object = n, graph = ''http://ldf.lodlaundromat.org/d#metadata''\<rparr>"

definition exampleIsIRI :: "string \<Rightarrow> bool" where
  "exampleIsIRI s \<longleftrightarrow> take 7 s = ''http://''"

definition exampleHostOf :: "string \<Rightarrow> string" where
  "exampleHostOf s = takeWhile (\<lambda>c. c \<noteq> CHR ''/'') (drop 7 s)"

definition exampleTriple :: "string \<Rightarrow> string \<Rightarrow> triple" where
  "exampleTriple s ob = \<lparr>subject = s, predicate = ''p'', object = ob, graph = ''''\<rparr>"

definition exampleHostTriple :: "string \<Rightarrow> triple" where
  "exampleHostTriple h =
     \<lparr>subject = ''http://'' @ h @ ''/s'', predicate = ''http://'' @ h @ ''/p'',
      object = ''http://'' @ h @ ''/o'', graph = ''''\<rparr>"

definition exampleSampling :: analysis where
  "exampleSampling =
     \<lparr>promise = Pending, samplings = [\<lparr>remainingPages = Some 2, urls = []\<rparr>],
      requests = [(0, 1), (0, 2)]\<rparr>"


text \<open>
  A store for the examples. The object at 6 is built by counting the host \<^verbatim>\<open>foo.org\<close>
  twice and the host \<^verbatim>\<open>constructor\<close> once; the objects at 4 and 5 are what
  \<^verbatim>\<open>process\<close> leaves of such objects in which \<^verbatim>\<open>constructor\<close> was counted once
  and twice.
\<close>

definition exampleStore :: store where
  "exampleStore a =
     (if a = 0 then [(''a.org'', Num 2), (''b.org'', Num 3), (''c.org'', Num 3)]
      else if a = 1 then [(''c.org'', Num 1), (''d.org'', Num 4)]
      else if a = 2 then [(''a.org'', Num 5)]
      else if a = 4 then [(''constructor'', Str ''function Object() { [native code] }1'')]
      else if a = 5 then [(''constructor'', Str ''function Object() { [native code] }11'')]
      else if a = 6 then [(''foo.org'', Num 2),
                          (''constructor'', Str ''function Object() { [native code] }1'')]
      else [])"


definition exampleProcessed :: "string \<Rightarrow> addr \<Rightarrow> int \<Rightarrow> processed" where
  "exampleProcessed host a n =
     \<lparr>mostOccurringHost = Some host,
      provenance = \<lparr>ldf = ''http://ldf.lodlaundromat.org/d'', url = ''http://example.org/d.nt'',
                    numTriples = n\<rparr>,
      referencedHosts = a\<rparr>"

definition exampleInputs :: "processed list" where
  "exampleInputs =
     [exampleProcessed ''foo.org'' 0 100, exampleProcessed ''foo.org'' 1 200,
      exampleProcessed ''bar.org'' 2 50]"




section \<open>Properties\<close>

subsection \<open>Page sampling\<close>

lemma pagesToSample_pos:
  assumes "0 < n" and "0 < r"
  shows "1 \<le> pagesToSample r n"
proof -
  have "0 < real_of_int n * r / 100"
    using assms by simp
  then have "0 < \<lceil>real_of_int n * r / 100\<rceil>"
    by (simp only: zero_less_ceiling)
  then show ?thesis
    by (simp add: pagesToSample_def)
qed

lemma pagesToSample_le_maxPage:
  assumes "0 < n" and "r \<le> 1"
  shows "pagesToSample r n \<le> maxPage n"
proof -
  have "real_of_int n * r \<le> real_of_int n * 1"
    using assms by (intro mult_left_mono) simp_all
  then have "real_of_int n * r / 100 \<le> real_of_int n / 100"
    by simp
  then show ?thesis
    unfolding pagesToSample_def maxPage_def by (rule ceiling_mono)
qed

lemma pageIndex_bounds:
  assumes pts: "1 \<le> pagesToSample r n"
    and le: "pagesToSample r n \<le> maxPage n"
    and i: "i < nat (pagesToSample r n)"
  shows "1 \<le> 1 + real i * pageInterval r n"
    and "1 + real i * pageInterval r n \<le> real_of_int (maxPage n)"
proof -
  define p where "p = real_of_int (pagesToSample r n)"
  define m where "m = real_of_int (maxPage n)"
  have p1: "1 \<le> p" and pm: "p \<le> m"
    using pts le by (simp_all add: p_def m_def)
  have ip: "real i + 1 \<le> p"
    using i pts unfolding p_def by linarith
  have q1: "1 \<le> m / p"
    using p1 pm by simp
  have iv: "pageInterval r n = m / p"
    by (simp add: pageInterval_def p_def m_def)
  have "0 \<le> real i * (m / p)"
    using q1 by (intro mult_nonneg_nonneg) simp_all
  then show "1 \<le> 1 + real i * pageInterval r n"
    by (simp add: iv)
  have "real i * (m / p) \<le> (p - 1) * (m / p)"
    using ip q1 by (intro mult_right_mono) simp_all
  also have "\<dots> = m - m / p"
    using p1 by (simp add: field_simps)
  also have "\<dots> \<le> m - 1"
    using q1 by simp
  finally show "1 + real i * pageInterval r n \<le> real_of_int (maxPage n)"
    by (simp add: iv m_def)
qed

text \<open>
  C1. For a positive declared number of triples and a sampling ratio in \<open>(0, 1]\<close>, the page
  computation of \<^verbatim>\<open>analyseData\<close> (page size 100) requests at least one page and at most
  \<open>maxPage\<close> pages, and every requested page index lies between 1 and \<open>maxPage\<close>.
\<close>

theorem pageIndices_in_range:
  assumes "0 < declaredTriples" and "0 < samplingFactor" and "samplingFactor \<le> 1"
  shows "1 \<le> length (pageIndices samplingFactor declaredTriples)
    \<and> int (length (pageIndices samplingFactor declaredTriples)) \<le> maxPage declaredTriples
    \<and> (\<forall>x \<in> set (pageIndices samplingFactor declaredTriples).
          1 \<le> x \<and> x \<le> real_of_int (maxPage declaredTriples))"
proof -
  have pts: "1 \<le> pagesToSample samplingFactor declaredTriples"
    using assms(1,2) by (rule pagesToSample_pos)
  have le: "pagesToSample samplingFactor declaredTriples \<le> maxPage declaredTriples"
    using assms(1,3) by (rule pagesToSample_le_maxPage)
  have len: "length (pageIndices samplingFactor declaredTriples)
      = nat (pagesToSample samplingFactor declaredTriples)"
    by (simp add: pageIndices_def)
  have "1 \<le> length (pageIndices samplingFactor declaredTriples)"
    using pts by (simp add: len)
  moreover have "int (length (pageIndices samplingFactor declaredTriples)) \<le> maxPage declaredTriples"
    using pts le by (simp add: len)
  moreover have "\<forall>x \<in> set (pageIndices samplingFactor declaredTriples).
      1 \<le> x \<and> x \<le> real_of_int (maxPage declaredTriples)"
    using pageIndex_bounds [OF pts le] by (auto simp: pageIndices_def)
  ultimately show ?thesis
    by blast
qed

theorem pageIndices_in_range_witness:
  "(0::int) < 1000 \<and> (0::real) < 1 / 10 \<and> (1::real) / 10 \<le> 1
    \<and> maxPage 1000 = 10 \<and> pageIndices (1 / 10) 1000 = [1]"
proof -
  have m: "maxPage 1000 = 10"
    by (simp add: maxPage_def)
  have b: "1 \<le> length (pageIndices (1 / 10) 1000)
    \<and> int (length (pageIndices (1 / 10) 1000)) \<le> maxPage 1000
    \<and> (\<forall>x \<in> set (pageIndices (1 / 10) 1000). 1 \<le> x \<and> x \<le> real_of_int (maxPage 1000))"
    using pageIndices_in_range [of 1000 "1 / 10"] by simp
  have p: "pagesToSample (1 / 10) 1000 = 1"
    by (simp add: pagesToSample_def)
  have "pageIndices (1 / 10) 1000 = [1]"
    by (simp add: pageIndices_def p)
  with m b show ?thesis
    by simp
qed

subsection \<open>JavaScript values\<close>

declare decimal.simps [simp del]

lemma decimal_digit: "n < 10 \<Longrightarrow> decimal n = [digitChar n]"
  by (subst decimal.simps) simp

lemma decimal_one: "decimal 1 = ''1''" "decimal (Suc 0) = ''1''"
  by (simp_all add: decimal_digit digitChar_def)

lemma objectPrototype_proto: "objectPrototype key = None \<Longrightarrow> key \<noteq> ''__proto__''"
  by (auto simp: objectPrototype_def)

lemma plain_value:
  assumes "plainCounts m" and "map_of m key = Some v"
  shows "v = Num (hostCount m key)" and "objectPrototype key = None"
proof -
  have "(key, v) \<in> set m"
    using assms(2) by (rule map_of_SomeD)
  then have "objectPrototype key = None \<and> isNum v"
    using assms(1) by (auto simp: plainCounts_def list_all_iff)
  then show "v = Num (hostCount m key)" and "objectPrototype key = None"
    using assms(2) by (cases v; simp add: hostCount_def)+
qed

lemma orZero_getProp_plain:
  assumes "plainCounts m" and "objectPrototype key = None"
  shows "orZero (getProp m key) = Num (hostCount m key)"
proof (cases "map_of m key")
  case None
  then show ?thesis
    using assms(2) by (simp add: getProp_def orZero_def falsy_def hostCount_def)
next
  case (Some v)
  then have "v = Num (hostCount m key)"
    using assms(1) by (rule plain_value(1) [rotated])
  then show ?thesis
    using Some by (simp add: getProp_def orZero_def falsy_def)
qed

lemma set_update_subset:
  "set (AList.update k v m) \<subseteq> insert (k, v) (set m)"
  by (induction m) auto

lemma setProp_plain:
  assumes "plainCounts m" and "objectPrototype key = None"
  shows "plainCounts (setProp key (Num n) m)"
    and "map_of (setProp key (Num n) m) = (map_of m)(key \<mapsto> Num n)"
proof -
  have key: "key \<noteq> ''__proto__''"
    using assms(2) by (rule objectPrototype_proto)
  show "plainCounts (setProp key (Num n) m)"
    using assms set_update_subset [of key "Num n" m] key
    by (auto simp: plainCounts_def setProp_def distinct_update list_all_iff)
  show "map_of (setProp key (Num n) m) = (map_of m)(key \<mapsto> Num n)"
    using key by (simp add: setProp_def update_conv')
qed

subsection \<open>Host counting\<close>

lemma pageCallback_urls:
  assumes "sid < length (samplings st)"
  shows "length (samplings (pageCallback isIRI hostOf sid args st)) = length (samplings st)"
    and "urls (samplings (pageCallback isIRI hostOf sid args st) ! sid)
      = (case args of Inr (Some t) \<Rightarrow> onPageTriple isIRI hostOf (urls (samplings st ! sid)) t
         | _ \<Rightarrow> urls (samplings st ! sid))"
  using assms by (auto simp: pageCallback_def Let_def split: sum.splits option.splits)

lemma totalCount_update:
  "totalCount (AList.update k v m) + hostCount m k = totalCount m + weight v"
  by (induction m) (auto simp: totalCount_def hostCount_def)

lemma countTerm_plain:
  assumes "countsInv m" and "isIRI x \<Longrightarrow> objectPrototype (hostOf x) = None"
  shows "countsInv (countTerm isIRI hostOf m x)"
    and "totalCount (countTerm isIRI hostOf m x) = totalCount m + (if isIRI x then 1 else 0)"
proof -
  have plain: "plainCounts m"
    using assms(1) by (simp add: countsInv_def)
  show "countsInv (countTerm isIRI hostOf m x)"
  proof (cases "isIRI x")
    case False
    then show ?thesis
      using assms(1) by (simp add: countTerm_def)
  next
    case True
    then have h: "objectPrototype (hostOf x) = None"
      by (rule assms(2))
    have eq: "countTerm isIRI hostOf m x = setProp (hostOf x) (Num (hostCount m (hostOf x) + 1)) m"
      using True by (simp add: countTerm_def Let_def orZero_getProp_plain [OF plain h])
    have "set (setProp (hostOf x) (Num (hostCount m (hostOf x) + 1)) m)
        \<subseteq> insert (hostOf x, Num (hostCount m (hostOf x) + 1)) (set m)"
      using set_update_subset [of "hostOf x" "Num (hostCount m (hostOf x) + 1)" m]
      by (auto simp: setProp_def)
    then have "list_all (\<lambda>e. 0 < weight (snd e))
        (setProp (hostOf x) (Num (hostCount m (hostOf x) + 1)) m)"
      using assms(1) by (auto simp: countsInv_def list_all_iff)
    then show ?thesis
      using setProp_plain(1) [OF plain h] by (simp add: eq countsInv_def)
  qed
  show "totalCount (countTerm isIRI hostOf m x) = totalCount m + (if isIRI x then 1 else 0)"
  proof (cases "isIRI x")
    case False
    then show ?thesis
      by (simp add: countTerm_def)
  next
    case True
    then have h: "objectPrototype (hostOf x) = None"
      by (rule assms(2))
    have eq: "countTerm isIRI hostOf m x
        = AList.update (hostOf x) (Num (hostCount m (hostOf x) + 1)) m"
      using True objectPrototype_proto [OF h]
      by (simp add: countTerm_def Let_def orZero_getProp_plain [OF plain h] setProp_def)
    show ?thesis
      using totalCount_update [of "hostOf x" "Num (hostCount m (hostOf x) + 1)" m] True
      by (simp add: eq)
  qed
qed

lemma countedPairs_append:
  "countedPairs isIRI (ts @ us) = countedPairs isIRI ts @ countedPairs isIRI us"
  by (simp add: countedPairs_def)

lemma countedHosts_append:
  "countedHosts isIRI hostOf (ts @ us) = countedHosts isIRI hostOf ts @ countedHosts isIRI hostOf us"
  by (simp add: countedHosts_def countedPairs_append)

lemma deliveredTriples_Cons:
  "deliveredTriples (args # calls) = deliveredTriples [args] @ deliveredTriples calls"
  by (cases "(args # calls)" rule: deliveredTriples.cases) simp_all

lemma onPageTriple_plain:
  assumes "countsInv m" and "plainHosts (countedHosts isIRI hostOf [t])"
  shows "countsInv (onPageTriple isIRI hostOf m t)"
    and "totalCount (onPageTriple isIRI hostOf m t) = totalCount m + length (countedPairs isIRI [t])"
proof -
  show "countsInv (onPageTriple isIRI hostOf m t)"
  proof (cases "graph t = ''''")
    case False
    then show ?thesis
      using assms(1) by (simp add: onPageTriple_def)
  next
    case True
    have s: "isIRI (subject t) \<Longrightarrow> objectPrototype (hostOf (subject t)) = None"
      and p: "isIRI (predicate t) \<Longrightarrow> objectPrototype (hostOf (predicate t)) = None"
      and ob: "isIRI (object t) \<Longrightarrow> objectPrototype (hostOf (object t)) = None"
      using assms(2) True by (auto simp: plainHosts_def countedHosts_def countedPairs_def)
    let ?m1 = "countTerm isIRI hostOf m (subject t)"
    let ?m2 = "countTerm isIRI hostOf ?m1 (predicate t)"
    have 1: "countsInv ?m1"
      using assms(1) s by (rule countTerm_plain(1))
    have 2: "countsInv ?m2"
      using 1 p by (rule countTerm_plain(1))
    have "countsInv (countTerm isIRI hostOf ?m2 (object t))"
      using 2 ob by (rule countTerm_plain(1))
    then show ?thesis
      using True by (simp add: onPageTriple_def)
  qed
  show "totalCount (onPageTriple isIRI hostOf m t) = totalCount m + length (countedPairs isIRI [t])"
  proof (cases "graph t = ''''")
    case False
    then show ?thesis
      by (simp add: onPageTriple_def countedPairs_def)
  next
    case True
    have s: "isIRI (subject t) \<Longrightarrow> objectPrototype (hostOf (subject t)) = None"
      and p: "isIRI (predicate t) \<Longrightarrow> objectPrototype (hostOf (predicate t)) = None"
      and ob: "isIRI (object t) \<Longrightarrow> objectPrototype (hostOf (object t)) = None"
      using assms(2) True by (auto simp: plainHosts_def countedHosts_def countedPairs_def)
    let ?m1 = "countTerm isIRI hostOf m (subject t)"
    let ?m2 = "countTerm isIRI hostOf ?m1 (predicate t)"
    have 1: "countsInv ?m1"
      using assms(1) s by (rule countTerm_plain(1))
    have 2: "countsInv ?m2"
      using 1 p by (rule countTerm_plain(1))
    have "totalCount (countTerm isIRI hostOf ?m2 (object t))
        = totalCount m + (if isIRI (subject t) then 1 else 0)
          + (if isIRI (predicate t) then 1 else 0) + (if isIRI (object t) then 1 else 0)"
      using countTerm_plain(2) [of m isIRI "subject t" hostOf, OF assms(1) s]
        countTerm_plain(2) [of ?m1 isIRI "predicate t" hostOf, OF 1 p]
        countTerm_plain(2) [of ?m2 isIRI "object t" hostOf, OF 2 ob]
      by simp
    then show ?thesis
      using True by (simp add: onPageTriple_def countedPairs_def)
  qed
qed

lemma pageCallback_plain:
  assumes "sid < length (samplings st)"
    and "countsInv (urls (samplings st ! sid))"
    and "plainHosts (countedHosts isIRI hostOf (deliveredTriples [args]))"
  shows "countsInv (urls (samplings (pageCallback isIRI hostOf sid args st) ! sid))"
    and "totalCount (urls (samplings (pageCallback isIRI hostOf sid args st) ! sid))
     = totalCount (urls (samplings st ! sid)) + length (countedPairs isIRI (deliveredTriples [args]))"
proof -
  show "countsInv (urls (samplings (pageCallback isIRI hostOf sid args st) ! sid))"
  proof (cases args)
    case (Inl err)
    then show ?thesis
      using assms(1,2) by (simp add: pageCallback_urls(2))
  next
    case (Inr triple)
    then show ?thesis
      using assms
      by (cases triple) (simp_all add: pageCallback_urls(2) onPageTriple_plain(1))
  qed
  show "totalCount (urls (samplings (pageCallback isIRI hostOf sid args st) ! sid))
     = totalCount (urls (samplings st ! sid)) + length (countedPairs isIRI (deliveredTriples [args]))"
  proof (cases args)
    case (Inl err)
    then show ?thesis
      using assms(1) by (simp add: pageCallback_urls(2) countedPairs_def)
  next
    case (Inr triple)
    then show ?thesis
      using assms
      by (cases triple)
        (simp_all add: pageCallback_urls(2) onPageTriple_plain(2) countedPairs_def)
  qed
qed

text \<open>
  As long as no counted host is the name of an inherited property, the counts of the
  \<^verbatim>\<open>urls\<close> object of a sampling stay positive numbers under distinct keys, and they add
  up to the number of counted (triple, position) pairs.
\<close>

lemma pageCallbacks_plain:
  assumes "sid < length (samplings st)"
    and "countsInv (urls (samplings st ! sid))"
    and "plainHosts (countedHosts isIRI hostOf (deliveredTriples calls))"
  shows "countsInv (urls (samplings (fold (pageCallback isIRI hostOf sid) calls st) ! sid))
    \<and> totalCount (urls (samplings (fold (pageCallback isIRI hostOf sid) calls st) ! sid))
        = totalCount (urls (samplings st ! sid))
          + length (countedPairs isIRI (deliveredTriples calls))"
  using assms
proof (induction calls arbitrary: st)
  case Nil
  then show ?case by (simp add: countedPairs_def)
next
  case (Cons args calls)
  let ?st = "pageCallback isIRI hostOf sid args st"
  have split: "deliveredTriples (args # calls) = deliveredTriples [args] @ deliveredTriples calls"
    by (rule deliveredTriples_Cons)
  have hosts: "plainHosts (countedHosts isIRI hostOf (deliveredTriples [args]))"
    and rest: "plainHosts (countedHosts isIRI hostOf (deliveredTriples calls))"
    using Cons.prems(3) unfolding split countedHosts_append by (simp_all add: plainHosts_def)
  have len: "sid < length (samplings ?st)"
    using Cons.prems(1) by (simp add: pageCallback_urls(1))
  have inv: "countsInv (urls (samplings ?st ! sid))"
    using Cons.prems(1,2) hosts by (rule pageCallback_plain(1))
  have tot: "totalCount (urls (samplings ?st ! sid))
      = totalCount (urls (samplings st ! sid)) + length (countedPairs isIRI (deliveredTriples [args]))"
    using Cons.prems(1,2) hosts by (rule pageCallback_plain(2))
  have "length (countedPairs isIRI (deliveredTriples (args # calls)))
      = length (countedPairs isIRI (deliveredTriples [args]))
        + length (countedPairs isIRI (deliveredTriples calls))"
    unfolding split by (simp add: countedPairs_append)
  then show ?case
    using Cons.IH [OF len inv rest] tot by simp
qed

lemma host_count_total_plain:
  assumes "sid < length (samplings st)" and "urls (samplings st ! sid) = []"
    and "plainHosts (countedHosts isIRI hostOf (deliveredTriples calls))"
  shows "totalCount (urls (samplings (fold (pageCallback isIRI hostOf sid) calls st) ! sid))
     = length (countedPairs isIRI (deliveredTriples calls))"
proof -
  have "countsInv (urls (samplings st ! sid))"
    using assms(2) by (simp add: countsInv_def plainCounts_def)
  from pageCallbacks_plain [OF assms(1) this assms(3)] show ?thesis
    using assms(2) by (simp add: totalCount_def)
qed

lemma scenario_two_pages:
  "urls (samplings (fold (pageCallback exampleIsIRI exampleHostOf 0)
        [Inr (Some (exampleTriple ''http://a.org/x'' ''http://b.org/y'')), Inr None,
         Inr (Some (exampleTriple ''http://a.org/x'' ''http://a.org/z'')), Inr None]
        exampleSampling) ! 0) = [(''a.org'', Num 3), (''b.org'', Num 1)]"
  by (simp add: exampleSampling_def pageCallback_def onPageTriple_def countTerm_def
      exampleIsIRI_def exampleHostOf_def exampleTriple_def orZero_def falsy_def resolve_def
      getProp_def setProp_def objectPrototype_def)

text \<open>
  C2. The code misses the hosts that are names of inherited properties. A triple with the
  empty graph whose three terms are IRIs of the host \<^verbatim>\<open>__proto__\<close> gives three counted
  pairs, but \<^verbatim>\<open>urls[host]\<close> reads the inherited object, \<^verbatim>\<open>+ 1\<close> makes a string of it
  and the assignment is ignored: the object stays empty and the total is 0. With the host
  \<^verbatim>\<open>constructor\<close> the three pairs leave one key that holds a string, not the count 3.
\<close>

theorem inherited_host_not_counted:
  "length (countedPairs exampleIsIRI
      (deliveredTriples [Inr (Some (exampleHostTriple ''__proto__'')), Inr None])) = 3
   \<and> urls (samplings (fold (pageCallback exampleIsIRI exampleHostOf 0)
        [Inr (Some (exampleHostTriple ''__proto__'')), Inr None] exampleSampling) ! 0) = []
   \<and> totalCount (urls (samplings (fold (pageCallback exampleIsIRI exampleHostOf 0)
        [Inr (Some (exampleHostTriple ''__proto__'')), Inr None] exampleSampling) ! 0)) = 0
   \<and> length (countedPairs exampleIsIRI
      (deliveredTriples [Inr (Some (exampleHostTriple ''constructor'')), Inr None])) = 3
   \<and> urls (samplings (fold (pageCallback exampleIsIRI exampleHostOf 0)
        [Inr (Some (exampleHostTriple ''constructor'')), Inr None] exampleSampling) ! 0)
      = [(''constructor'', Str ''function Object() { [native code] }111'')]
   \<and> totalCount (urls (samplings (fold (pageCallback exampleIsIRI exampleHostOf 0)
        [Inr (Some (exampleHostTriple ''constructor'')), Inr None] exampleSampling) ! 0)) = 0"
  by (simp add: exampleSampling_def pageCallback_def onPageTriple_def countTerm_def
      exampleIsIRI_def exampleHostOf_def exampleHostTriple_def orZero_def falsy_def resolve_def
      getProp_def setProp_def objectPrototype_def countedPairs_def totalCount_def decimal_one)

subsection \<open>A response whose status is not 200\<close>

lemma streamTriples_status:
  "statusCode response \<noteq> 200 \<Longrightarrow>
     streamTriples n3parse pageURL (Responded response) = Throws (ReferenceError ''ldfURL'')"
  by (simp add: streamTriples_def streamTriples_scope_def)

text \<open>
  C3. A page that answers with status 500: building the error message reads the identifier
  \<^verbatim>\<open>ldfURL\<close>, which is a parameter of \<^verbatim>\<open>analyseData\<close> and is not visible inside
  \<^verbatim>\<open>streamTriples\<close>. The request callback raises a \<^verbatim>\<open>ReferenceError\<close> before it
  calls \<^verbatim>\<open>callback\<close>: the page callback receives nothing, the promise of the analysis is
  not rejected, and the exception leaves the request callback uncaught.
\<close>

theorem status_500_throws:
  "streamTriples n3parse pageURL (Responded \<lparr>statusCode = 500, body = b\<rparr>)
     = Throws (ReferenceError ''ldfURL'')
   \<and> pageStream isIRI hostOf sid
       (streamTriples n3parse pageURL (Responded \<lparr>statusCode = 500, body = b\<rparr>)) st
     = Inl (ReferenceError ''ldfURL'')"
  by (simp add: streamTriples_status pageStream_def)

subsection \<open>The root resource\<close>

lemma rootCallback_quiet:
  "quietCall ldfURL args \<Longrightarrow> rootCallback f lit ldfURL args st = st"
  by (auto simp: quietCall_def rootCallback_def split: sum.splits option.splits)

lemma fold_rootCallback_quiet:
  "\<forall>args \<in> set calls. quietCall ldfURL args \<Longrightarrow>
     fold (rootCallback f lit ldfURL) calls st = st"
  by (induction calls arbitrary: st) (simp_all add: rootCallback_quiet)

lemma pageIndices_nonpositive:
  assumes "0 \<le> r" and "n \<le> 0"
  shows "pageIndices r n = []"
proof -
  have "real_of_int n * r \<le> 0"
    using assms by (simp add: mult_nonpos_nonneg)
  then have "real_of_int n * r / 100 \<le> 0"
    by simp
  then have "pagesToSample r n \<le> 0"
    unfolding pagesToSample_def by (simp only: ceiling_le_zero)
  then show ?thesis
    by (simp add: pageIndices_def)
qed

lemma rootCallback_emptySize:
  assumes "0 \<le> f" and "emptySizeCall lit ldfURL args"
  shows "promise (rootCallback f lit ldfURL args st) = promise st"
    and "requests (rootCallback f lit ldfURL args st) = requests st"
  using assms
  by (auto simp: emptySizeCall_def rootCallback_def pageIndices_nonpositive
      split: sum.splits option.splits)

lemma fold_rootCallback_emptySize:
  assumes "0 \<le> f"
  shows "\<forall>args \<in> set calls. emptySizeCall lit ldfURL args \<Longrightarrow>
     promise (fold (rootCallback f lit ldfURL) calls st) = promise st
     \<and> requests (fold (rootCallback f lit ldfURL) calls st) = requests st"
  by (induction calls arbitrary: st) (simp_all add: rootCallback_emptySize [OF assms])

text \<open>
  C4, as the code has it. The code has no check of the declared size and no error for it.
  With a sampling factor that is not negative, when the root resource delivers no error and
  every size triple on it declares a size that is not positive or does not parse, no page is
  requested and the promise is neither resolved nor rejected: it stays pending.
\<close>

theorem nonpositive_size_stays_pending:
  assumes "0 \<le> samplingFactor"
    and "\<forall>args \<in> set calls. emptySizeCall literalInt ldfURL args"
  shows "promise (rootStream samplingFactor literalInt ldfURL calls) = Pending
    \<and> requests (rootStream samplingFactor literalInt ldfURL calls) = []"
  using fold_rootCallback_emptySize [OF assms(1) assms(2), of initial]
  by (simp add: rootStream_def initial_def)

theorem nonpositive_size_stays_pending_witness:
  "(0::real) \<le> 1 / 20
   \<and> exampleLiteralInt (object (exampleSizeTriple ''-5'')) = Some (- 5)
   \<and> sizeTriple ''http://ldf.lodlaundromat.org/d'' (exampleSizeTriple ''-5'')
   \<and> emptySizeCall exampleLiteralInt ''http://ldf.lodlaundromat.org/d''
        (Inr (Some (exampleSizeTriple ''-5'')))
   \<and> emptySizeCall exampleLiteralInt ''http://ldf.lodlaundromat.org/d'' (Inr None)
   \<and> promise (rootStream (1 / 20) exampleLiteralInt ''http://ldf.lodlaundromat.org/d''
        [Inr (Some (exampleSizeTriple ''-5'')), Inr None]) = Pending
   \<and> requests (rootStream (1 / 20) exampleLiteralInt ''http://ldf.lodlaundromat.org/d''
        [Inr (Some (exampleSizeTriple ''-5'')), Inr None]) = []"
proof -
  have a: "(0::real) \<le> 1 / 20"
    by simp
  have n: "exampleLiteralInt (object (exampleSizeTriple ''-5'')) = Some (- 5)"
    and t: "sizeTriple ''http://ldf.lodlaundromat.org/d'' (exampleSizeTriple ''-5'')"
    by (simp_all add: exampleLiteralInt_def exampleSizeTriple_def sizeTriple_def)
  have b: "\<forall>args \<in> set [Inr (Some (exampleSizeTriple ''-5'')), Inr None].
      emptySizeCall exampleLiteralInt ''http://ldf.lodlaundromat.org/d'' args"
    by (simp add: emptySizeCall_def n)
  show ?thesis
    using a n t b nonpositive_size_stays_pending [OF a b] by simp
qed

text \<open>
  The claim C4 as stated fails: a size triple that declares 0 triples does not reject the
  promise.
\<close>

theorem zero_size_not_rejected:
  "promise (rootStream (1 / 20) exampleLiteralInt ''http://ldf.lodlaundromat.org/d''
      [Inr (Some (exampleSizeTriple ''0'')), Inr None]) = Pending"
  by (simp add: rootStream_def initial_def rootCallback_def sizeTriple_def exampleSizeTriple_def
      exampleLiteralInt_def pageIndices_def pagesToSample_def)

text \<open>
  C9. When the root resource delivers no error and no triple whose subject is the endpoint
  and whose predicate is \<^verbatim>\<open>http://rdfs.org/ns/void#triples\<close>, the analysis ends the root
  stream as it began: the promise pending, no sampling open and no page requested, so that
  no callback is left that could resolve or reject it.
\<close>

theorem no_size_triple_stays_pending:
  assumes "\<forall>args \<in> set calls. quietCall ldfURL args"
  shows "promise (rootStream samplingFactor literalInt ldfURL calls) = Pending
    \<and> requests (rootStream samplingFactor literalInt ldfURL calls) = []
    \<and> samplings (rootStream samplingFactor literalInt ldfURL calls) = []"
  using fold_rootCallback_quiet [OF assms] by (simp add: rootStream_def initial_def)

theorem no_size_triple_stays_pending_witness:
  "quietCall ''http://ldf.lodlaundromat.org/d''
        (Inr (Some (exampleTriple ''http://a.org/x'' ''http://b.org/y'')))
   \<and> quietCall ''http://ldf.lodlaundromat.org/d'' (Inr None)
   \<and> promise (rootStream (1 / 20) exampleLiteralInt ''http://ldf.lodlaundromat.org/d''
        [Inr (Some (exampleTriple ''http://a.org/x'' ''http://b.org/y'')), Inr None]) = Pending
   \<and> requests (rootStream (1 / 20) exampleLiteralInt ''http://ldf.lodlaundromat.org/d''
        [Inr (Some (exampleTriple ''http://a.org/x'' ''http://b.org/y'')), Inr None]) = []
   \<and> samplings (rootStream (1 / 20) exampleLiteralInt ''http://ldf.lodlaundromat.org/d''
        [Inr (Some (exampleTriple ''http://a.org/x'' ''http://b.org/y'')), Inr None]) = []"
proof -
  have a: "\<forall>args \<in> set [Inr (Some (exampleTriple ''http://a.org/x'' ''http://b.org/y'')), Inr None].
      quietCall ''http://ldf.lodlaundromat.org/d'' args"
    by (simp add: quietCall_def sizeTriple_def exampleTriple_def)
  show ?thesis
    using a no_size_triple_stays_pending [OF a, of "1 / 20" exampleLiteralInt] by simp
qed

subsection \<open>The dominant host\<close>

lemma getProp_own_plain:
  assumes "plainCounts m" and "key \<in> fst ` set m"
  shows "getProp m key = Num (hostCount m key)"
proof -
  from assms(2) obtain v where v: "map_of m key = Some v"
    by (metis map_of_eq_None_iff not_Some_eq)
  then have "v = Num (hostCount m key)"
    using assms(1) by (rule plain_value(1) [rotated])
  then show ?thesis
    using v by (simp add: getProp_def)
qed








lemma example_object_built_twice:
  "urls (samplings (fold (pageCallback exampleIsIRI exampleHostOf 0)
        [Inr (Some (exampleTriple ''http://constructor/a'' ''http://constructor/b'')), Inr None]
        exampleSampling) ! 0) = exampleStore 5"
proof -
  have s5: "exampleStore 5 = [(''constructor'', Str ''function Object() { [native code] }11'')]"
    by (simp add: exampleStore_def)
  show ?thesis
    unfolding s5
    by (simp add: exampleSampling_def pageCallback_def onPageTriple_def countTerm_def
        exampleIsIRI_def exampleHostOf_def exampleTriple_def orZero_def falsy_def resolve_def
        getProp_def setProp_def objectPrototype_def decimal_one)
qed


text \<open>
  C10. For the empty host-count object \<^verbatim>\<open>process\<close> does not raise: it returns
  \<^verbatim>\<open>mostOccurringHost = null\<close>, the provenance record of the dataset and the object
  itself, still empty: the loop body never runs and deleting the key \<^verbatim>\<open>"null"\<close> changes
  nothing.
\<close>

theorem process_empty:
  "process toNumber (s(hostOccurrences d := [])) d
     = Inr (s(hostOccurrences d := []),
        \<lparr>mostOccurringHost = None,
         provenance = \<lparr>ldf = ldfEndpoint d, url = source d, numTriples = triples d\<rparr>,
         referencedHosts = hostOccurrences d\<rparr>)"
  by (simp add: process_def AList.delete_eq)

subsection \<open>The merge: entries\<close>

lemma reduce_snoc:
  "reduce s (ps @ [p]) = mergeStep (reduce s ps) p"
  by (simp add: reduce_def)

lemma sameHost_snoc:
  "sameHost k (ps @ [p])
     = (if propertyKey (mostOccurringHost p) = k then sameHost k ps @ [p] else sameHost k ps)"
  by (simp add: sameHost_def)

lemma snd_mergeStep:
  "map_of (snd (mergeStep (s, acc) p)) k =
     (if k = propertyKey (mostOccurringHost p) then
        (case map_of acc k of
           None \<Rightarrow> Some \<lparr>merged_triples = numTriples (provenance p),
                         merged_provenance = [provenance p],
                         merged_referencedHosts = referencedHosts p\<rparr>
         | Some entry \<Rightarrow>
             Some (entry\<lparr>merged_triples := merged_triples entry + numTriples (provenance p),
                         merged_provenance := merged_provenance entry @ [provenance p]\<rparr>))
      else map_of acc k)"
  by (simp add: mergeStep_def Let_def update_conv' split: option.splits)

lemma reduce_entries:
  "map_of (snd (reduce s ps)) k = groupEntry k ps"
proof (induction ps arbitrary: k rule: rev_induct)
  case Nil
  show ?case by (simp add: reduce_def groupEntry_def sameHost_def)
next
  case (snoc p ps)
  obtain s' acc where r: "reduce s ps = (s', acc)"
    by (cases "reduce s ps")
  have acc: "map_of acc k' = groupEntry k' ps" for k'
    using snoc.IH [of k'] r by simp
  show ?case
  proof (cases "k = propertyKey (mostOccurringHost p)")
    case False
    then show ?thesis
      by (simp add: reduce_snoc r snd_mergeStep acc groupEntry_def sameHost_snoc)
  next
    case True
    show ?thesis
    proof (cases "sameHost k ps")
      case Nil
      then show ?thesis
        using True by (simp add: reduce_snoc r snd_mergeStep acc groupEntry_def sameHost_snoc)
    next
      case (Cons first rest)
      then show ?thesis
        using True by (simp add: reduce_snoc r snd_mergeStep acc groupEntry_def sameHost_snoc)
    qed
  qed
qed

lemma distinct_reduce:
  "distinct (map fst (snd (reduce s ps)))"
proof (induction ps rule: rev_induct)
  case Nil
  show ?case by (simp add: reduce_def)
next
  case (snoc p ps)
  obtain s' acc where r: "reduce s ps = (s', acc)"
    by (cases "reduce s ps")
  then have "distinct (map fst acc)"
    using snoc.IH by simp
  then show ?case
    by (simp add: reduce_snoc r mergeStep_def Let_def distinct_update split: option.splits)
qed

lemma groupEntry_sum:
  "groupEntry k ps = Some e \<Longrightarrow>
     merged_triples e = sum_list (map numTriples (merged_provenance e))"
  by (auto simp: groupEntry_def comp_def split: list.splits)

text \<open>
  C7. In every output of the merge, the \<^verbatim>\<open>triples\<close> field of an entry is the sum of
  the \<^verbatim>\<open>numTriples\<close> of the provenance records in the provenance list of that entry.
\<close>

theorem merged_triples_sum:
  assumes "(k, e) \<in> set (snd (reduce s ps))"
  shows "merged_triples e = sum_list (map numTriples (merged_provenance e))"
proof -
  have "map_of (snd (reduce s ps)) k = Some e"
    using assms distinct_reduce [of s ps] by simp
  then have "groupEntry k ps = Some e"
    by (simp add: reduce_entries)
  then show ?thesis
    by (rule groupEntry_sum)
qed

lemma scenario_same_host:
  "snd (reduce exampleStore [exampleProcessed ''foo.org'' 0 100, exampleProcessed ''foo.org'' 1 200])
     = [(''foo.org'',
         \<lparr>merged_triples = 300,
          merged_provenance =
            [provenance (exampleProcessed ''foo.org'' 0 100),
             provenance (exampleProcessed ''foo.org'' 1 200)],
          merged_referencedHosts = 0\<rparr>)]"
  by (simp add: reduce_def mergeStep_def exampleProcessed_def propertyKey_def Let_def)

theorem merged_triples_sum_witness:
  "(''foo.org'',
     \<lparr>merged_triples = 300,
      merged_provenance =
        [provenance (exampleProcessed ''foo.org'' 0 100),
         provenance (exampleProcessed ''foo.org'' 1 200)],
      merged_referencedHosts = 0\<rparr>)
    \<in> set (snd (reduce exampleStore
          [exampleProcessed ''foo.org'' 0 100, exampleProcessed ''foo.org'' 1 200]))
   \<and> sum_list (map numTriples
        [provenance (exampleProcessed ''foo.org'' 0 100),
         provenance (exampleProcessed ''foo.org'' 1 200)]) = 300"
proof -
  have a: "(''foo.org'',
     \<lparr>merged_triples = 300,
      merged_provenance =
        [provenance (exampleProcessed ''foo.org'' 0 100),
         provenance (exampleProcessed ''foo.org'' 1 200)],
      merged_referencedHosts = 0\<rparr>)
    \<in> set (snd (reduce exampleStore
          [exampleProcessed ''foo.org'' 0 100, exampleProcessed ''foo.org'' 1 200]))"
    unfolding scenario_same_host by simp
  show ?thesis
    using a merged_triples_sum [OF a] by simp
qed

subsection \<open>The merge: the store\<close>

lemma fold_sumKey:
  assumes "a \<noteq> b"
  shows "fold (sumKey b a) keys s
     = s(a := fold (\<lambda>key m. setProp key (jsPlus (orZero (getProp m key)) (getProp (s b) key)) m)
               keys (s a))"
proof (induction keys arbitrary: s)
  case Nil
  show ?case by simp
next
  case (Cons key keys)
  let ?s = "sumKey b a key s"
  have b: "?s b = s b"
    using assms by (simp add: sumKey_def)
  have a: "?s a = setProp key (jsPlus (orZero (getProp (s a) key)) (getProp (s b) key)) (s a)"
    by (simp add: sumKey_def)
  have "fold (sumKey b a) (key # keys) s = fold (sumKey b a) keys ?s"
    by simp
  also have "\<dots> = ?s(a := fold (\<lambda>key m. setProp key
        (jsPlus (orZero (getProp m key)) (getProp (?s b) key)) m) keys (?s a))"
    by (rule Cons.IH)
  also have "\<dots> = s(a := fold (\<lambda>key m. setProp key
        (jsPlus (orZero (getProp m key)) (getProp (s b) key)) m) (key # keys) (s a))"
    by (simp add: a b) (simp add: sumKey_def)
  finally show ?case .
qed

lemma hostCount_upd:
  "map_of m' = (map_of m)(key \<mapsto> Num n) \<Longrightarrow>
     hostCount m' h = (if h = key then n else hostCount m h)"
  by (simp add: hostCount_def)

text \<open>
  Adding a plain object \<open>cur\<close> into a plain object key by key: the result is plain, and it
  holds the sum under the keys of \<open>cur\<close> and what it held before under the others.
\<close>

lemma fold_add_plain:
  assumes cur: "plainCounts cur"
    and "plainCounts m0" and "distinct ks" and "set ks \<subseteq> fst ` set cur"
  shows "plainCounts (fold (\<lambda>key m. setProp key
            (jsPlus (orZero (getProp m key)) (getProp cur key)) m) ks m0)
    \<and> (\<forall>h. map_of (fold (\<lambda>key m. setProp key
            (jsPlus (orZero (getProp m key)) (getProp cur key)) m) ks m0) h
          = (if h \<in> set ks then Some (Num (hostCount m0 h + hostCount cur h))
             else map_of m0 h))"
  using assms(2,3,4)
proof (induction ks arbitrary: m0)
  case Nil
  then show ?case by simp
next
  case (Cons key ks)
  let ?F = "\<lambda>key m. setProp key (jsPlus (orZero (getProp m key)) (getProp cur key)) m"
  let ?n = "hostCount m0 key + hostCount cur key"
  have own: "key \<in> fst ` set cur"
    using Cons.prems(3) by simp
  then obtain v where "map_of cur key = Some v"
    by (metis map_of_eq_None_iff not_Some_eq)
  then have name: "objectPrototype key = None"
    using cur by (rule plain_value(2) [rotated])
  have step: "?F key m0 = setProp key (Num ?n) m0"
    by (simp add: orZero_getProp_plain [OF Cons.prems(1) name] getProp_own_plain [OF cur own])
  have plain1: "plainCounts (setProp key (Num ?n) m0)"
    and map1: "map_of (setProp key (Num ?n) m0) = (map_of m0)(key \<mapsto> Num ?n)"
    using setProp_plain [OF Cons.prems(1) name] by simp_all
  have d: "distinct ks" and fresh: "key \<notin> set ks" and sub: "set ks \<subseteq> fst ` set cur"
    using Cons.prems(2,3) by simp_all
  have IH: "plainCounts (fold ?F ks (setProp key (Num ?n) m0))
      \<and> (\<forall>h. map_of (fold ?F ks (setProp key (Num ?n) m0)) h
            = (if h \<in> set ks
               then Some (Num (hostCount (setProp key (Num ?n) m0) h + hostCount cur h))
               else map_of (setProp key (Num ?n) m0) h))"
    using plain1 d sub by (rule Cons.IH)
  have fold: "fold ?F (key # ks) m0 = fold ?F ks (setProp key (Num ?n) m0)"
    using step by simp
  show ?case
    unfolding fold
  proof (intro conjI allI)
    show "plainCounts (fold ?F ks (setProp key (Num ?n) m0))"
      using IH by blast
  next
    fix h
    have "map_of (fold ?F ks (setProp key (Num ?n) m0)) h
        = (if h \<in> set ks
           then Some (Num (hostCount (setProp key (Num ?n) m0) h + hostCount cur h))
           else map_of (setProp key (Num ?n) m0) h)"
      using IH by blast
    then show "map_of (fold ?F ks (setProp key (Num ?n) m0)) h
        = (if h \<in> set (key # ks) then Some (Num (hostCount m0 h + hostCount cur h))
           else map_of m0 h)"
      using fresh by (auto simp: map1 hostCount_upd [OF map1])
  qed
qed

lemma mergedCounts_single:
  assumes "plainCounts m"
  shows "mergedCounts [m] = map_of m"
proof (rule ext)
  fix h
  show "mergedCounts [m] h = map_of m h"
  proof (cases "map_of m h")
    case None
    then show ?thesis
      by (simp add: mergedCounts_def)
  next
    case (Some v)
    then have "v = Num (hostCount m h)"
      using assms by (rule plain_value(1) [rotated])
    then show ?thesis
      using Some by (simp add: mergedCounts_def)
  qed
qed

lemma weight_mergedCounts:
  "(case mergedCounts ms h of None \<Rightarrow> 0 | Some v \<Rightarrow> weight v)
     = sum_list (map (\<lambda>m. hostCount m h) ms)"
proof (cases "list_ex (\<lambda>m. map_of m h \<noteq> None) ms")
  case True
  then show ?thesis
    by (simp add: mergedCounts_def)
next
  case False
  then have "\<forall>m \<in> set ms. hostCount m h = 0"
    by (simp add: list_ex_iff hostCount_def)
  then have "sum_list (map (\<lambda>m. hostCount m h) ms) = 0"
    by simp
  then show ?thesis
    using False by (simp add: mergedCounts_def)
qed

lemma mergedCounts_snoc:
  "mergedCounts (ms @ [m]) h
     = (if h \<in> set (map fst m)
        then Some (Num ((case mergedCounts ms h of None \<Rightarrow> 0 | Some v \<Rightarrow> weight v)
                         + hostCount m h))
        else mergedCounts ms h)"
proof (cases "h \<in> set (map fst m)")
  case True
  then have "map_of m h \<noteq> None"
    by (simp add: map_of_eq_None_iff)
  then have "mergedCounts (ms @ [m]) h
      = Some (Num (sum_list (map (\<lambda>m. hostCount m h) ms) + hostCount m h))"
    by (simp add: mergedCounts_def)
  then show ?thesis
    using True by (simp add: weight_mergedCounts)
next
  case False
  then have "map_of m h = None"
    by (simp add: map_of_eq_None_iff)
  then show ?thesis
    using False by (simp add: mergedCounts_def hostCount_def)
qed

lemma distinct_snoc_fresh:
  assumes "distinct (map f (ps @ [p]))"
  shows "distinct (map f ps)" and "\<forall>q \<in> set ps. f q \<noteq> f p"
proof -
  show "distinct (map f ps)"
    using assms by simp
  show "\<forall>q \<in> set ps. f q \<noteq> f p"
  proof (intro ballI notI)
    fix q
    assume "q \<in> set ps" and "f q = f p"
    then have "f p \<in> f ` set ps"
      by (metis imageI)
    then show False
      using assms by simp
  qed
qed

lemma hd_sameHost:
  assumes "sameHost k ps \<noteq> []"
  shows "hd (sameHost k ps) \<in> set ps"
    and "propertyKey (mostOccurringHost (hd (sameHost k ps))) = k"
proof -
  have "hd (sameHost k ps) \<in> set (sameHost k ps)"
    using assms by (rule hd_in_set)
  then show "hd (sameHost k ps) \<in> set ps"
    and "propertyKey (mostOccurringHost (hd (sameHost k ps))) = k"
    by (simp_all add: sameHost_def)
qed

lemma groupEntry_address:
  "groupEntry k ps = Some e \<Longrightarrow>
     sameHost k ps \<noteq> [] \<and> merged_referencedHosts e = referencedHosts (hd (sameHost k ps))"
  by (auto simp: groupEntry_def split: list.splits)

lemma fst_mergeStep:
  assumes "map_of acc (propertyKey (mostOccurringHost p)) = groupEntry (propertyKey (mostOccurringHost p)) ps"
    and "\<forall>q \<in> set ps. referencedHosts q \<noteq> referencedHosts p"
  shows "fst (mergeStep (s, acc) p) =
     (case sameHost (propertyKey (mostOccurringHost p)) ps of
        [] \<Rightarrow> s
      | first # rest \<Rightarrow>
          s(referencedHosts first :=
              fold (\<lambda>key m. setProp key
                      (jsPlus (orZero (getProp m key)) (getProp (s (referencedHosts p)) key)) m)
                (map fst (s (referencedHosts p))) (s (referencedHosts first))))"
proof (cases "sameHost (propertyKey (mostOccurringHost p)) ps")
  case Nil
  then show ?thesis
    using assms(1) by (simp add: mergeStep_def Let_def groupEntry_def)
next
  case (Cons first rest)
  then have "first \<in> set ps"
    using hd_sameHost(1) [of "propertyKey (mostOccurringHost p)" ps] by simp
  then have ne: "referencedHosts first \<noteq> referencedHosts p"
    using assms(2) by blast
  show ?thesis
    using assms(1) Cons by (simp add: mergeStep_def Let_def groupEntry_def fold_sumKey [OF ne])
qed

text \<open>
  The merge writes only to the objects of the datasets that come first among those of their
  dominant host.
\<close>

lemma reduce_frame:
  assumes "distinct (map referencedHosts ps)"
    and "\<forall>k. sameHost k ps \<noteq> [] \<longrightarrow> a \<noteq> referencedHosts (hd (sameHost k ps))"
  shows "fst (reduce s ps) a = s a"
  using assms
proof (induction ps rule: rev_induct)
  case Nil
  show ?case by (simp add: reduce_def)
next
  case (snoc p ps)
  obtain s' acc where r: "reduce s ps = (s', acc)"
    by (cases "reduce s ps")
  have d: "distinct (map referencedHosts ps)"
    and fresh: "\<forall>q \<in> set ps. referencedHosts q \<noteq> referencedHosts p"
    using distinct_snoc_fresh [OF snoc.prems(1)] by blast+
  have seeds: "a \<noteq> referencedHosts (hd (sameHost k ps))" if "sameHost k ps \<noteq> []" for k
  proof -
    have "sameHost k (ps @ [p]) \<noteq> []" and "hd (sameHost k (ps @ [p])) = hd (sameHost k ps)"
      using that by (simp_all add: sameHost_snoc)
    then show ?thesis
      using snoc.prems(2) by metis
  qed
  then have old: "s' a = s a"
    using snoc.IH [OF d] r by simp
  have acc: "map_of acc k = groupEntry k ps" for k
    using reduce_entries [of s ps k] r by simp
  show ?case
  proof (cases "sameHost (propertyKey (mostOccurringHost p)) ps")
    case Nil
    then show ?thesis
      using old by (simp add: reduce_snoc r fst_mergeStep [OF acc fresh])
  next
    case (Cons first rest)
    then have "a \<noteq> referencedHosts first"
      using seeds [of "propertyKey (mostOccurringHost p)"] by simp
    then show ?thesis
      using old Cons by (simp add: reduce_snoc r fst_mergeStep [OF acc fresh])
  qed
qed

lemma reduce_untouched:
  assumes "distinct (map referencedHosts ps)" and "a \<notin> referencedHosts ` set ps"
  shows "fst (reduce s ps) a = s a"
proof (rule reduce_frame [OF assms(1)], intro allI impI)
  fix k
  assume "sameHost k ps \<noteq> []"
  then have "hd (sameHost k ps) \<in> set ps"
    by (rule hd_sameHost(1))
  then show "a \<noteq> referencedHosts (hd (sameHost k ps))"
    using assms(2) by blast
qed

text \<open>
  When every dataset has its own plain object, the object of the first dataset of a key
  stays plain and holds, after the merge, the counts of all the datasets of that key added up.
\<close>

lemma reduce_hosts:
  assumes "distinct (map referencedHosts ps)"
    and "\<forall>p \<in> set ps. plainCounts (s (referencedHosts p))"
    and "sameHost k ps \<noteq> []"
  shows "plainCounts (fst (reduce s ps) (referencedHosts (hd (sameHost k ps))))
    \<and> map_of (fst (reduce s ps) (referencedHosts (hd (sameHost k ps))))
        = mergedCounts (map (\<lambda>p. s (referencedHosts p)) (sameHost k ps))"
  using assms
proof (induction ps arbitrary: k rule: rev_induct)
  case Nil
  then show ?case by (simp add: sameHost_def)
next
  case (snoc p ps)
  obtain s' acc where r: "reduce s ps = (s', acc)"
    by (cases "reduce s ps")
  let ?k0 = "propertyKey (mostOccurringHost p)"
  let ?cur = "s (referencedHosts p)"
  have d: "distinct (map referencedHosts ps)"
    and fresh: "\<forall>q \<in> set ps. referencedHosts q \<noteq> referencedHosts p"
    using distinct_snoc_fresh [OF snoc.prems(1)] by blast+
  have wf: "\<forall>q \<in> set ps. plainCounts (s (referencedHosts q))"
    and wfp: "plainCounts ?cur"
    using snoc.prems(2) by simp_all
  have acc: "map_of acc k' = groupEntry k' ps" for k'
    using reduce_entries [of s ps k'] r by simp
  have IH: "plainCounts (s' (referencedHosts (hd (sameHost k' ps))))
      \<and> map_of (s' (referencedHosts (hd (sameHost k' ps))))
          = mergedCounts (map (\<lambda>p. s (referencedHosts p)) (sameHost k' ps))"
    if "sameHost k' ps \<noteq> []" for k'
    using snoc.IH [OF d wf that] r by simp
  have "referencedHosts p \<notin> referencedHosts ` set ps"
    using fresh by auto
  then have cur: "s' (referencedHosts p) = ?cur"
    using reduce_untouched [OF d, of "referencedHosts p" s] r by simp
  show ?case
  proof (cases "sameHost ?k0 ps")
    case Nil
    have st: "fst (reduce s (ps @ [p])) = s'"
      using Nil by (simp add: reduce_snoc r fst_mergeStep [OF acc fresh])
    show ?thesis
    proof (cases "k = ?k0")
      case True
      then show ?thesis
        using Nil wfp by (simp add: st sameHost_snoc cur mergedCounts_single)
    next
      case False
      then have "sameHost k ps \<noteq> []"
        using snoc.prems(3) by (simp add: sameHost_snoc)
      then show ?thesis
        using False IH [of k] by (simp add: st sameHost_snoc)
    qed
  next
    case (Cons first rest)
    let ?new = "fold (\<lambda>key m. setProp key (jsPlus (orZero (getProp m key)) (getProp ?cur key)) m)
        (map fst ?cur) (s' (referencedHosts first))"
    have st: "fst (reduce s (ps @ [p])) = s'(referencedHosts first := ?new)"
      using Cons by (simp add: reduce_snoc r fst_mergeStep [OF acc fresh] cur)
    have first: "first = hd (sameHost ?k0 ps)" and ne: "sameHost ?k0 ps \<noteq> []"
      using Cons by simp_all
    show ?thesis
    proof (cases "k = ?k0")
      case True
      have plain0: "plainCounts (s' (referencedHosts first))"
        and map0: "map_of (s' (referencedHosts first))
            = mergedCounts (map (\<lambda>p. s (referencedHosts p)) (sameHost ?k0 ps))"
        using IH [OF ne] first by simp_all
      have keys: "distinct (map fst ?cur)" and sub: "set (map fst ?cur) \<subseteq> fst ` set ?cur"
        using wfp by (simp_all add: plainCounts_def)
      note add = fold_add_plain [OF wfp plain0 keys sub]
      have "map_of ?new h
          = mergedCounts (map (\<lambda>p. s (referencedHosts p)) (sameHost ?k0 ps @ [p])) h" for h
      proof -
        have "hostCount (s' (referencedHosts first)) h
            = (case mergedCounts (map (\<lambda>p. s (referencedHosts p)) (sameHost ?k0 ps)) h of
                 None \<Rightarrow> 0 | Some v \<Rightarrow> weight v)"
          by (simp add: hostCount_def map0)
        then show ?thesis
          using add by (simp add: mergedCounts_snoc map0)
      qed
      then have "map_of ?new
          = mergedCounts (map (\<lambda>p. s (referencedHosts p)) (sameHost ?k0 ps @ [p]))"
        by (rule ext)
      moreover have "plainCounts ?new"
        using add by blast
      ultimately show ?thesis
        using True Cons by (simp add: st sameHost_snoc)
    next
      case False
      then have nek: "sameHost k ps \<noteq> []"
        using snoc.prems(3) by (simp add: sameHost_snoc)
      have "hd (sameHost k ps) \<in> set ps" and "first \<in> set ps"
        and "propertyKey (mostOccurringHost (hd (sameHost k ps))) = k"
        and "propertyKey (mostOccurringHost first) = ?k0"
        using hd_sameHost [OF nek] hd_sameHost [OF ne] first by simp_all
      then have "referencedHosts (hd (sameHost k ps)) \<noteq> referencedHosts first"
        using d False by (metis distinct_map inj_onD)
      then show ?thesis
        using False IH [OF nek] by (simp add: st sameHost_snoc)
    qed
  qed
qed

subsection \<open>The merge: order of the datasets\<close>








lemma exampleStore_values:
  "exampleStore 0 = [(''a.org'', Num 2), (''b.org'', Num 3), (''c.org'', Num 3)]"
  "exampleStore (Suc 0) = [(''c.org'', Num 1), (''d.org'', Num 4)]"
  "exampleStore 2 = [(''a.org'', Num 5)]"
  "exampleStore 4 = [(''constructor'', Str ''function Object() { [native code] }1'')]"
  "exampleStore 5 = [(''constructor'', Str ''function Object() { [native code] }11'')]"
  by (simp_all add: exampleStore_def)

lemma exampleInputs_reduce:
  "reduce exampleStore exampleInputs
     = (exampleStore(0 := [(''a.org'', Num 2), (''b.org'', Num 3), (''c.org'', Num 4),
                           (''d.org'', Num 4)]),
        [(''foo.org'',
          \<lparr>merged_triples = 300,
           merged_provenance =
             [provenance (exampleProcessed ''foo.org'' 0 100),
              provenance (exampleProcessed ''foo.org'' 1 200)],
           merged_referencedHosts = 0\<rparr>),
         (''bar.org'',
          \<lparr>merged_triples = 50,
           merged_provenance = [provenance (exampleProcessed ''bar.org'' 2 50)],
           merged_referencedHosts = 2\<rparr>)])"
  by (simp add: reduce_def mergeStep_def sumKey_def exampleInputs_def exampleProcessed_def
      propertyKey_def orZero_def falsy_def getProp_def setProp_def objectPrototype_def Let_def
      exampleStore_values)



subsection \<open>The merge: sharing of the host-count objects\<close>

text \<open>
  C8, as the code has it. A new entry is given the \<^verbatim>\<open>referencedHosts\<close> object of the
  processed dataset itself, not a copy: the entry of a key holds the address of the object of
  the first dataset with that key. When the datasets have each their own plain object,
  merging the later datasets of the key writes their counts into that object, which after the
  merge holds for every host the sum of the counts of all the datasets of the key; the
  objects of all other datasets, those that are not the first of their key, are left as
  they were.
\<close>

theorem reduce_shares_first_object:
  assumes "distinct (map referencedHosts ps)"
    and "\<forall>p \<in> set ps. plainCounts (s (referencedHosts p))"
  shows "(\<forall>k e. map_of (snd (reduce s ps)) k = Some e \<longrightarrow>
            sameHost k ps \<noteq> []
            \<and> merged_referencedHosts e = referencedHosts (hd (sameHost k ps))
            \<and> map_of (fst (reduce s ps) (merged_referencedHosts e))
                = mergedCounts (map (\<lambda>p. s (referencedHosts p)) (sameHost k ps)))
    \<and> (\<forall>p \<in> set ps. p \<noteq> hd (sameHost (propertyKey (mostOccurringHost p)) ps) \<longrightarrow>
            fst (reduce s ps) (referencedHosts p) = s (referencedHosts p))"
proof (intro conjI allI impI ballI)
  fix k e
  assume "map_of (snd (reduce s ps)) k = Some e"
  then have e: "groupEntry k ps = Some e"
    by (simp add: reduce_entries)
  show ne: "sameHost k ps \<noteq> []"
    using groupEntry_address [OF e] by simp
  show addr: "merged_referencedHosts e = referencedHosts (hd (sameHost k ps))"
    using groupEntry_address [OF e] by simp
  show "map_of (fst (reduce s ps) (merged_referencedHosts e))
      = mergedCounts (map (\<lambda>p. s (referencedHosts p)) (sameHost k ps))"
    using reduce_hosts [OF assms ne] by (simp add: addr)
next
  fix p
  assume p: "p \<in> set ps" and later: "p \<noteq> hd (sameHost (propertyKey (mostOccurringHost p)) ps)"
  have "referencedHosts p \<noteq> referencedHosts (hd (sameHost k ps))" if ne: "sameHost k ps \<noteq> []" for k
  proof
    assume eq: "referencedHosts p = referencedHosts (hd (sameHost k ps))"
    have "hd (sameHost k ps) \<in> set ps"
      using ne by (rule hd_sameHost(1))
    then have same: "p = hd (sameHost k ps)"
      using assms(1) p eq by (metis distinct_map inj_onD)
    then have "propertyKey (mostOccurringHost p) = k"
      using hd_sameHost(2) [OF ne] by simp
    then show False
      using same later by simp
  qed
  then show "fst (reduce s ps) (referencedHosts p) = s (referencedHosts p)"
    using reduce_frame [OF assms(1)] by blast
qed

theorem reduce_shares_first_object_witness:
  "distinct (map referencedHosts exampleInputs)
   \<and> list_all (\<lambda>p. plainCounts (exampleStore (referencedHosts p))) exampleInputs
   \<and> map_option merged_referencedHosts (map_of (snd (reduce exampleStore exampleInputs)) ''foo.org'')
       = Some (referencedHosts (exampleInputs ! 0))
   \<and> fst (reduce exampleStore exampleInputs) (referencedHosts (exampleInputs ! 0))
       = [(''a.org'', Num 2), (''b.org'', Num 3), (''c.org'', Num 4), (''d.org'', Num 4)]
   \<and> mergedCounts [exampleStore 0, exampleStore 1] ''c.org'' = Some (Num 4)
   \<and> fst (reduce exampleStore exampleInputs) (referencedHosts (exampleInputs ! 1))
       = exampleStore (referencedHosts (exampleInputs ! 1))"
proof -
  have a: "distinct (map referencedHosts exampleInputs)"
    by (simp add: exampleInputs_def exampleProcessed_def)
  have p: "list_all (\<lambda>p. plainCounts (exampleStore (referencedHosts p))) exampleInputs"
    by (simp add: exampleInputs_def exampleProcessed_def exampleStore_values plainCounts_def
        objectPrototype_def)
  then have p': "\<forall>p \<in> set exampleInputs. plainCounts (exampleStore (referencedHosts p))"
    by (simp add: list_all_iff)
  have b: "map_option merged_referencedHosts
      (map_of (snd (reduce exampleStore exampleInputs)) ''foo.org'')
       = Some (referencedHosts (exampleInputs ! 0))"
    unfolding exampleInputs_reduce by (simp add: exampleInputs_def exampleProcessed_def)
  have c: "fst (reduce exampleStore exampleInputs) (referencedHosts (exampleInputs ! 0))
       = [(''a.org'', Num 2), (''b.org'', Num 3), (''c.org'', Num 4), (''d.org'', Num 4)]"
    unfolding exampleInputs_reduce by (simp add: exampleInputs_def exampleProcessed_def)
  have m: "mergedCounts [exampleStore 0, exampleStore 1] ''c.org'' = Some (Num 4)"
    by (simp add: mergedCounts_def hostCount_def exampleStore_values)
  have e: "fst (reduce exampleStore exampleInputs) (referencedHosts (exampleInputs ! 1))
       = exampleStore (referencedHosts (exampleInputs ! 1))"
    unfolding exampleInputs_reduce by (simp add: exampleInputs_def exampleProcessed_def)
  show ?thesis
    using reduce_shares_first_object [OF a p'] a p b c m e by blast
qed

text \<open>
  The claim C8 as stated fails: after two datasets with the same dominant host are merged,
  the \<^verbatim>\<open>referencedHosts\<close> object of the first one holds the counts of both.
\<close>

theorem merge_modifies_first_input:
  "exampleStore (referencedHosts (exampleInputs ! 0))
     = [(''a.org'', Num 2), (''b.org'', Num 3), (''c.org'', Num 3)]
   \<and> fst (reduce exampleStore exampleInputs) (referencedHosts (exampleInputs ! 0))
     = [(''a.org'', Num 2), (''b.org'', Num 3), (''c.org'', Num 4), (''d.org'', Num 4)]"
proof -
  have "referencedHosts (exampleInputs ! 0) = 0"
    by (simp add: exampleInputs_def exampleProcessed_def)
  then show ?thesis
    unfolding exampleInputs_reduce by (simp add: exampleStore_values)
qed

end
